theory Spec2Isabelle
  imports Complex_Main
begin

section \<open>Errors and their classification\<close>

text \<open>
  A JavaScript error as the code reads it: \<open>error.message\<close> (a string) and the optional
  \<open>error.response\<close> object of an HTTP client error, of which only \<open>status\<close> is read.
\<close>

record http_response =
  status :: int

record js_error =
  message :: string
  response :: "http_response option"

text \<open>\<open>String.prototype.includes\<close>: does \<open>sub\<close> occur in \<open>s\<close> as a contiguous run.\<close>

fun str_includes :: "string \<Rightarrow> string \<Rightarrow> bool" where
  "str_includes [] sub = (sub = [])"
| "str_includes (c # cs) sub = (take (length sub) (c # cs) = sub \<or> str_includes cs sub)"

definition isNetworkError :: "js_error \<Rightarrow> bool" where
  "isNetworkError error =
     (str_includes (message error) ''socket hang up'' \<or>
      str_includes (message error) ''network'' \<or>
      str_includes (message error) ''timeout'' \<or>
      str_includes (message error) ''ECONNREFUSED'')"

definition isServerError :: "js_error \<Rightarrow> bool" where
  "isServerError error =
     (case response error of None \<Rightarrow> False | Some r \<Rightarrow> status r \<ge> 500)"

section \<open>The retry executor (\<open>executeWithRetry\<close>)\<close>

definition MAX_RETRIES :: nat where
  "MAX_RETRIES = 5"

definition RETRY_DELAY_MS :: real where
  "RETRY_DELAY_MS = 2000"

definition RETRY_MULTIPLIER :: real where
  "RETRY_MULTIPLIER = 3 / 2"

text \<open>
  What one call of \<open>executeWithRetry\<close> does, in order: every invocation of the wrapped
  operation, every retry line it writes to the log file (retry number and delay), and
  every timer it awaits.
\<close>

datatype retry_event =
    Invoke
  | RetryLogged string js_error nat real
  | Wait real

text \<open>
  The wrapped operation \<open>requestFn\<close> is effectful: each invocation may end differently.
  It is modelled by the outcome of its \<open>n\<close>-th future invocation (\<open>Inl\<close> the error thrown,
  \<open>Inr\<close> the value returned); the recursive call sees the outcomes shifted by one.
  \<open>RETRY_DELAY_MS * Math.pow(RETRY_MULTIPLIER, retryCount)\<close> is computed on reals; for the
  retry counts below \<open>MAX_RETRIES\<close> the double-precision values are the same numbers.
\<close>

function executeWithRetry ::
  "(nat \<Rightarrow> js_error + 'a) \<Rightarrow> string \<Rightarrow> nat \<Rightarrow> (js_error + 'a) \<times> retry_event list" where
  "executeWithRetry requestFn requestName retryCount =
     (case requestFn 0 of
        Inr v \<Rightarrow> (Inr v, [Invoke])
      | Inl error \<Rightarrow>
          if (isNetworkError error \<or> isServerError error) \<and> retryCount < MAX_RETRIES then
            let nextRetryCount = retryCount + 1;
                delay = RETRY_DELAY_MS * RETRY_MULTIPLIER ^ retryCount;
                rest = executeWithRetry (\<lambda>n. requestFn (Suc n)) requestName nextRetryCount
            in (fst rest,
                [Invoke, RetryLogged requestName error nextRetryCount delay, Wait delay] @ snd rest)
          else (Inl error, [Invoke]))"
  by pat_completeness auto
termination
  by (relation "measure (\<lambda>(requestFn, requestName, retryCount). MAX_RETRIES - retryCount)") auto

declare executeWithRetry.simps [simp del]

text \<open>The classification that decides on a retry: network-class message or status of 500 and above.\<close>

definition retryable :: "js_error \<Rightarrow> bool" where
  "retryable error = (isNetworkError error \<or> isServerError error)"

text \<open>Observers of a trace: how often the operation was invoked, and the timers awaited
  between invocation \<open>k - 1\<close> and invocation \<open>k\<close> (before the first one, for \<open>k = 1\<close>).\<close>

fun invocations :: "retry_event list \<Rightarrow> nat" where
  "invocations [] = 0"
| "invocations (Invoke # es) = Suc (invocations es)"
| "invocations (_ # es) = invocations es"

fun waited_before :: "nat \<Rightarrow> retry_event list \<Rightarrow> real list" where
  "waited_before k [] = []"
| "waited_before k (Invoke # es) = (if k \<le> 1 then [] else waited_before (k - 1) es)"
| "waited_before k (Wait d # es) =
     (if k \<le> 1 then d # waited_before k es else waited_before k es)"
| "waited_before k (RetryLogged _ _ _ _ # es) = waited_before k es"

text \<open>Sample errors and operations.\<close>

definition refused :: js_error where
  "refused = \<lparr>message = ''connect ECONNREFUSED 127.0.0.1:443'', response = None\<rparr>"

definition unauthorized :: js_error where
  "unauthorized =
     \<lparr>message = ''Request failed with status code 401'', response = Some \<lparr>status = 401\<rparr>\<rparr>"

definition unavailable :: js_error where
  "unavailable =
     \<lparr>message = ''Request failed with status code 503'', response = Some \<lparr>status = 503\<rparr>\<rparr>"

text \<open>An operation that is refused five times and returns on its sixth invocation, and one
  that is refused every time.\<close>

definition sixth_attempt_succeeds :: "nat \<Rightarrow> js_error + nat" where
  "sixth_attempt_succeeds n = (if n < 5 then Inl refused else Inr 7)"

definition always_refused :: "nat \<Rightarrow> js_error + nat" where
  "always_refused n = Inl refused"

section \<open>The automation engine (\<open>automation.js\<close>)\<close>

subsection \<open>State, environment and effects\<close>

text \<open>The module-level variables \<open>isRunning\<close>, \<open>cooldownTimer\<close> (a timer handle or \<open>null\<close>)
  and \<open>consecutiveErrors\<close>.\<close>

record automation_state =
  isRunning :: bool
  cooldownTimer :: "nat option"
  consecutiveErrors :: int

definition MAX_CONSECUTIVE_ERRORS :: int where
  "MAX_CONSECUTIVE_ERRORS = 3"

definition initial_state :: automation_state where
  "initial_state = \<lparr>isRunning = False, cooldownTimer = None, consecutiveErrors = 0\<rparr>"

text \<open>
  The collaborators (\<open>auth\<close>, \<open>chat\<close>, \<open>models\<close>, \<open>points\<close>, \<open>rateLimit\<close>, \<open>groq\<close>,
  \<open>checkLogSize\<close>) live in other modules; what they answer is an input of the model. A call
  that returns nothing of interest is \<open>None\<close> when it returns and \<open>Some e\<close> when it throws
  \<open>e\<close>; a call whose value is used is \<open>Inr\<close> the value or \<open>Inl\<close> the error thrown.
  \<open>rateLimit.isCooldownActive()\<close> is a plain flag. \<open>random_floor\<close> is the integer that
  \<open>Math.floor(Math.random() * 7000)\<close> yields, as the runtime computes it in double
  precision. The logging and display functions (\<open>log\<close>, \<open>logToFile\<close>,
  \<open>updateStatus\<close>, \<open>render\<close>) are taken not to throw.
\<close>

record cycle_env =
  checkLogSize :: "js_error option"
  isCooldownActive :: bool
  checkRateLimitAvailability :: "js_error + bool"
  startCooldownDisplay :: "js_error + nat"
  startCooldown :: "js_error option"
  generateUserMessage :: "js_error + string"
  sendChatMessage :: "js_error option"
  getUserPoints :: "js_error option"
  getRateLimit :: "js_error option"
  random_floor :: nat

record start_env =
  start_checkLogSize :: "js_error option"
  login :: "js_error option"
  getUserInfo :: "js_error option"
  start_getUserPoints :: "js_error option"
  start_getRateLimit :: "js_error option"
  getModels :: "js_error option"
  selectDefaultModel :: "js_error option"
  createThread :: "js_error option"
  first_cycle :: cycle_env

text \<open>The text of a log or status line: the pieces of the template literal. An integer is
  kept as a number, and a quotient such as \<open>delay / 1000\<close> as its two operands: how the
  runtime divides and prints them is not modelled.\<close>

datatype piece = Str string | Num int | Quotient nat nat

datatype level = Info | Warning | Error | Success

text \<open>The closures handed to \<open>setTimeout\<close> and to the cooldown coordinator.\<close>

datatype callback =
    LoopAgain
  | LoopIfRunning
  | RetryIfRunning
  | RestartIfStopped

text \<open>Everything observable that the engine does, in order. \<open>Sleep ms\<close> is an awaited timer
  (\<open>await new Promise(resolve => setTimeout(resolve, ms))\<close>), \<open>SetTimeout cb ms\<close> schedules a
  closure, \<open>SetConsecutiveErrors n\<close> is a write of \<open>n\<close> to the counter.\<close>

datatype event =
    Log "piece list" level
  | LogToFile "piece list"
  | UpdateStatus "piece list" level
  | Render
  | Call string
  | SendChatMessage string
  | SetConsecutiveErrors int
  | Sleep nat
  | SetTimeout callback nat
  | StartCooldown callback

subsection \<open>\<open>automationLoop\<close>\<close>

text \<open>Lines 202 to 231: the chat send with its own \<open>try\<close>/\<open>catch\<close>.\<close>

definition send_step :: "cycle_env \<Rightarrow> string \<Rightarrow> automation_state \<Rightarrow> automation_state \<times> event list" where
  "send_step env userMessage s =
     (case sendChatMessage env of
        None \<Rightarrow>
          (s\<lparr>consecutiveErrors := 0\<rparr>, [SendChatMessage userMessage, SetConsecutiveErrors 0])
      | Some chatError \<Rightarrow>
          let s1 = s\<lparr>consecutiveErrors := consecutiveErrors s + 1\<rparr>;
              logged =
                [SendChatMessage userMessage,
                 SetConsecutiveErrors (consecutiveErrors s1),
                 LogToFile [Str ''Chat error (consecutive: '', Num (consecutiveErrors s1),
                            Str ''/'', Num MAX_CONSECUTIVE_ERRORS, Str ''): '',
                            Str (message chatError)]]
          in if consecutiveErrors s1 \<ge> MAX_CONSECUTIVE_ERRORS then
               (s1\<lparr>consecutiveErrors := 0\<rparr>,
                logged @
                [Log [Str ''Too many consecutive errors ('', Num (consecutiveErrors s1),
                      Str ''). Taking a longer break...''] Error,
                 UpdateStatus [Str ''Multiple errors, pausing...''] Error,
                 Render,
                 Sleep 180000,
                 SetConsecutiveErrors 0])
             else (s1, logged @ [Sleep 10000]))"

text \<open>Lines 233 to 262: the two display refreshes, each in a \<open>try\<close> whose \<open>catch\<close> only logs.\<close>

definition refresh_step :: "cycle_env \<Rightarrow> event list" where
  "refresh_step env =
     (case getUserPoints env of
        None \<Rightarrow> [Call ''points.getUserPoints'', Call ''updatePointsDisplay'']
      | Some pointsError \<Rightarrow>
          [Call ''points.getUserPoints'',
           LogToFile [Str ''Failed to update points display: '', Str (message pointsError)]]) @
     (case getRateLimit env of
        None \<Rightarrow> [Call ''rateLimit.getRateLimit'', Call ''updateRateLimitDisplay'']
      | Some rateLimitError \<Rightarrow>
          [Call ''rateLimit.getRateLimit'',
           LogToFile [Str ''Failed to update rate limit display: '', Str (message rateLimitError)]])"

text \<open>Lines 198 to 269: one unit of work and the scheduling of the next cycle.\<close>

definition work_step ::
  "cycle_env \<Rightarrow> automation_state \<Rightarrow> automation_state \<times> event list \<times> js_error option" where
  "work_step env s =
     (case generateUserMessage env of
        Inl e \<Rightarrow> (s, [Call ''groq.generateUserMessage''], Some e)
      | Inr userMessage \<Rightarrow>
          let s1 = s\<lparr>consecutiveErrors := 0\<rparr>;
              sent = send_step env userMessage s1;
              delay = random_floor env + 3000
          in (fst sent,
              [Call ''groq.generateUserMessage'', SetConsecutiveErrors 0] @ snd sent @
              refresh_step env @
              [Render,
               Log [Str ''Waiting '', Quotient delay 1000,
                    Str '' seconds before next message...''] Info,
               SetTimeout LoopAgain delay],
              None))"

text \<open>Lines 178 to 196: the quota check and the hand-over to the cooldown coordinator.\<close>

definition quota_step ::
  "cycle_env \<Rightarrow> automation_state \<Rightarrow> automation_state \<times> event list \<times> js_error option" where
  "quota_step env s =
     (case checkRateLimitAvailability env of
        Inl e \<Rightarrow> (s, [Call ''rateLimit.checkRateLimitAvailability''], Some e)
      | Inr rateLimitAvailable \<Rightarrow>
          if \<not> rateLimitAvailable then
            let announced =
                  [Call ''rateLimit.checkRateLimitAvailability'',
                   Log [Str ''Rate limit reached, starting cooldown''] Warning,
                   LogToFile [Str ''Rate limit reached, starting cooldown''],
                   Call ''startCooldownDisplay'']
            in (case startCooldownDisplay env of
                  Inl e \<Rightarrow> (s, announced, Some e)
                | Inr timer \<Rightarrow>
                    (s\<lparr>cooldownTimer := Some timer\<rparr>,
                     announced @ [StartCooldown LoopIfRunning],
                     startCooldown env))
          else
            let worked = work_step env s
            in (fst worked,
                Call ''rateLimit.checkRateLimitAvailability'' # fst (snd worked),
                snd (snd worked)))"

text \<open>Lines 168 to 269: the body of the \<open>try\<close>. The third component is the exception that
  leaves it, if any.\<close>

definition loop_try ::
  "cycle_env \<Rightarrow> automation_state \<Rightarrow> automation_state \<times> event list \<times> js_error option" where
  "loop_try env s =
     (if \<not> isRunning s then (s, [], None)
      else case checkLogSize env of
        Some e \<Rightarrow> (s, [Call ''checkLogSize''], Some e)
      | None \<Rightarrow>
          if isCooldownActive env then
            (s, [Call ''checkLogSize'', SetTimeout LoopAgain 1000], None)
          else
            let checked = quota_step env s
            in (fst checked, Call ''checkLogSize'' # fst (snd checked), snd (snd checked)))"

text \<open>Lines 270 to 319: the \<open>catch\<close> of the loop.\<close>

definition loop_catch :: "js_error \<Rightarrow> automation_state \<Rightarrow> automation_state \<times> event list" where
  "loop_catch error s =
     (let logged =
            [Log [Str ''Error in automation loop: '', Str (message error)] Error,
             LogToFile [Str ''Error in automation loop: '', Str (message error)],
             UpdateStatus [Str ''Error''] Error,
             Render];
          s1 = s\<lparr>consecutiveErrors := consecutiveErrors s + 1\<rparr>;
          counted = logged @ [SetConsecutiveErrors (consecutiveErrors s1)]
      in if isNetworkError error \<or> isServerError error then
           let (backoffTime, s2, escalated) =
                 (if consecutiveErrors s1 \<ge> MAX_CONSECUTIVE_ERRORS then
                    (180000,
                     s1\<lparr>consecutiveErrors := 0\<rparr>,
                     [Log [Str ''Too many consecutive errors ('',
                           Num (consecutiveErrors s1),
                           Str ''). Taking a longer break...''] Error,
                      SetConsecutiveErrors 0])
                  else if consecutiveErrors s1 > 1 then (15000, s1, [])
                  else (5000, s1, []))
           in (s2,
               counted @ escalated @
               [UpdateStatus [Str ''Retrying in '', Quotient backoffTime 1000, Str ''s...'']
                  Warning,
                Render,
                SetTimeout RetryIfRunning backoffTime])
         else (s1, counted @ [SetTimeout RetryIfRunning 15000]))"

definition automationLoop :: "cycle_env \<Rightarrow> automation_state \<Rightarrow> automation_state \<times> event list" where
  "automationLoop env s =
     (case loop_try env s of
        (s1, done, None) \<Rightarrow> (s1, done)
      | (s1, done, Some error) \<Rightarrow>
          let caught = loop_catch error s1 in (fst caught, done @ snd caught))"

subsection \<open>\<open>startAutomation\<close>, \<open>pauseAutomation\<close>, \<open>resumeAutomation\<close>\<close>

text \<open>A straight-line run of calls that may throw: each entry is the events of one stretch
  and whether the call ending it throws; the run stops at the first throw.\<close>

fun run_steps :: "(event list \<times> js_error option) list \<Rightarrow> event list \<times> js_error option" where
  "run_steps [] = ([], None)"
| "run_steps ((evs, Some e) # rest) = (evs, Some e)"
| "run_steps ((evs, None) # rest) = (evs @ fst (run_steps rest), snd (run_steps rest))"

text \<open>Lines 56 to 90: from \<open>updateStatus("Starting...")\<close> to the last \<open>render()\<close> before the
  loop is entered.\<close>

definition start_steps :: "start_env \<Rightarrow> event list \<times> js_error option" where
  "start_steps env =
     run_steps
       [([UpdateStatus [Str ''Starting...''] Info, Render, Call ''checkLogSize''],
           start_checkLogSize env),
        ([Log [Str ''Starting login...''] Info, Call ''auth.login''], login env),
        ([Call ''auth.getUserInfo''], getUserInfo env),
        ([Call ''updateUserInfo'', Call ''points.getUserPoints''], start_getUserPoints env),
        ([Call ''updatePointsDisplay'', Call ''rateLimit.getRateLimit''], start_getRateLimit env),
        ([Call ''updateRateLimitDisplay'', Call ''models.getModels''], getModels env),
        ([Call ''updateModelsTable'', Call ''models.selectDefaultModel''], selectDefaultModel env),
        ([Call ''chat.createThread''], createThread env),
        ([UpdateStatus [Str ''Running''] Success, Render], None)]"

text \<open>\<open>automationLoop()\<close> is called without \<open>await\<close>: what it throws never reaches the
  \<open>catch\<close> of \<open>startAutomation\<close>. Its first cycle runs on the state the start leaves.\<close>

definition startAutomation :: "start_env \<Rightarrow> automation_state \<Rightarrow> automation_state \<times> event list" where
  "startAutomation env s =
     (if isRunning s then (s, [Log [Str ''Automation already running''] Warning])
      else
        let s1 = s\<lparr>isRunning := True, consecutiveErrors := 0\<rparr>;
            begun = SetConsecutiveErrors 0 # fst (start_steps env)
        in case snd (start_steps env) of
             None \<Rightarrow>
               let looped = automationLoop (first_cycle env) s1
               in (fst looped, begun @ snd looped)
           | Some error \<Rightarrow>
               (s1\<lparr>isRunning := False\<rparr>,
                begun @
                [Log [Str ''Error starting automation: '', Str (message error)] Error,
                 LogToFile [Str ''Error starting automation: '', Str (message error)],
                 UpdateStatus [Str ''Start Failed''] Error,
                 Render] @
                (if isNetworkError error \<or> isServerError error then
                   [Log [Str ''Attempting to restart automation in 10 seconds...''] Info,
                    UpdateStatus [Str ''Auto-restarting in 10s...''] Warning,
                    Render,
                    SetTimeout RestartIfStopped 10000]
                 else [])))"

definition pauseAutomation :: "automation_state \<Rightarrow> automation_state \<times> event list" where
  "pauseAutomation s =
     (if \<not> isRunning s then (s, [Log [Str ''Automation not running''] Warning])
      else
        (s\<lparr>isRunning := False\<rparr>,
         [UpdateStatus [Str ''Paused''] Warning,
          Log [Str ''Automation paused''] Warning,
          LogToFile [Str ''Automation paused''],
          Render]))"

text \<open>\<open>resumeAutomation\<close> reads the cooldown flag and enters the loop in the same
  synchronous run, so both see the same environment.\<close>

definition resumeAutomation :: "cycle_env \<Rightarrow> automation_state \<Rightarrow> automation_state \<times> event list" where
  "resumeAutomation env s =
     (if isRunning s then (s, [Log [Str ''Automation already running''] Warning])
      else if isCooldownActive env then
        (s, [Log [Str ''Cannot resume during cooldown''] Warning,
             LogToFile [Str ''Resume attempt failed - cooldown active'']])
      else
        let s1 = s\<lparr>isRunning := True, consecutiveErrors := 0\<rparr>;
            looped = automationLoop env s1
        in (fst looped,
            [SetConsecutiveErrors 0,
             UpdateStatus [Str ''Running''] Success,
             Log [Str ''Automation resumed''] Success,
             LogToFile [Str ''Automation resumed''],
             Render] @ snd looped))"

subsection \<open>Executions\<close>

text \<open>What a scheduled closure does when its timer fires (or when the cooldown coordinator
  calls it back).\<close>

fun fire :: "callback \<Rightarrow> start_env \<Rightarrow> automation_state \<Rightarrow> automation_state \<times> event list" where
  "fire LoopAgain env s = automationLoop (first_cycle env) s"
| "fire LoopIfRunning env s =
     (if isRunning s then automationLoop (first_cycle env) s else (s, []))"
| "fire RetryIfRunning env s =
     (if isRunning s then
        (fst (automationLoop (first_cycle env) s),
         [UpdateStatus [Str ''Retrying...''] Warning, Render] @
         snd (automationLoop (first_cycle env) s))
      else (s, []))"
| "fire RestartIfStopped env s =
     (if \<not> isRunning s then
        (fst (startAutomation env s),
         Log [Str ''Auto-restarting automation...''] Info # snd (startAutomation env s))
      else (s, []))"

text \<open>An execution is a sequence of control commands and timer firings, each with the
  answers the collaborators give during it.\<close>

datatype action =
    Start start_env
  | Pause
  | Resume cycle_env
  | Fire callback start_env

fun step :: "action \<Rightarrow> automation_state \<Rightarrow> automation_state \<times> event list" where
  "step (Start env) s = startAutomation env s"
| "step Pause s = pauseAutomation s"
| "step (Resume env) s = resumeAutomation env s"
| "step (Fire cb env) s = fire cb env s"

fun exec :: "action list \<Rightarrow> automation_state \<Rightarrow> automation_state \<times> event list" where
  "exec [] s = (s, [])"
| "exec (a # as) s =
     (fst (exec as (fst (step a s))), snd (step a s) @ snd (exec as (fst (step a s))))"

subsection \<open>Sample environments\<close>

text \<open>A cycle in which every collaborator answers and the quota is available.\<close>

definition quiet_cycle :: cycle_env where
  "quiet_cycle =
     \<lparr>checkLogSize = None,
      isCooldownActive = False,
      checkRateLimitAvailability = Inr True,
      startCooldownDisplay = Inr 1,
      startCooldown = None,
      generateUserMessage = Inr ''hello'',
      sendChatMessage = None,
      getUserPoints = None,
      getRateLimit = None,
      random_floor = 0\<rparr>"

definition chat_fails :: cycle_env where
  "chat_fails = quiet_cycle\<lparr>sendChatMessage := Some unavailable\<rparr>"

definition cooling :: cycle_env where
  "cooling = quiet_cycle\<lparr>isCooldownActive := True\<rparr>"

definition quota_refused :: cycle_env where
  "quota_refused = quiet_cycle\<lparr>checkRateLimitAvailability := Inl refused\<rparr>"


definition quiet_start :: start_env where
  "quiet_start =
     \<lparr>start_checkLogSize = None,
      login = None,
      getUserInfo = None,
      start_getUserPoints = None,
      start_getRateLimit = None,
      getModels = None,
      selectDefaultModel = None,
      createThread = None,
      first_cycle = quiet_cycle\<rparr>"

definition running_state :: automation_state where
  "running_state = \<lparr>isRunning = True, cooldownTimer = None, consecutiveErrors = 0\<rparr>"

subsection \<open>Observers of a trace and notions of the specification\<close>

text \<open>The values written to the counter, the closures scheduled, the timers awaited and the
  chat messages handed to the transport, each in order.\<close>

fun counter_writes :: "event list \<Rightarrow> int list" where
  "counter_writes [] = []"
| "counter_writes (SetConsecutiveErrors n # es) = n # counter_writes es"
| "counter_writes (_ # es) = counter_writes es"

fun timeouts :: "event list \<Rightarrow> (callback \<times> nat) list" where
  "timeouts [] = []"
| "timeouts (SetTimeout cb ms # es) = (cb, ms) # timeouts es"
| "timeouts (_ # es) = timeouts es"

fun sleeps :: "event list \<Rightarrow> nat list" where
  "sleeps [] = []"
| "sleeps (Sleep ms # es) = ms # sleeps es"
| "sleeps (_ # es) = sleeps es"

fun sent_messages :: "event list \<Rightarrow> string list" where
  "sent_messages [] = []"
| "sent_messages (SendChatMessage m # es) = m # sent_messages es"
| "sent_messages (_ # es) = sent_messages es"




text \<open>The backoff ladder in the specification's words, by the number of consecutive
  offences: 5 seconds for the first, 15 seconds for a repeated one, 180 seconds from the
  threshold 3 on.\<close>

definition backoff_ladder :: "int \<Rightarrow> nat" where
  "backoff_ladder n = (if n \<ge> 3 then 180000 else if n > 1 then 15000 else 5000)"

text \<open>Sample actions: a cycle whose chat send fails, a cycle in which generating the
  message fails with a 401, a cycle in which the quota check is refused.\<close>

definition chat_failure :: action where
  "chat_failure = Fire LoopAgain (quiet_start\<lparr>first_cycle := chat_fails\<rparr>)"





section \<open>Properties of the retry executor\<close>

lemma refused_net: "isNetworkError refused"
  by (simp add: isNetworkError_def refused_def)

lemma executeWithRetry_success:
  "requestFn 0 = Inr v \<Longrightarrow> executeWithRetry requestFn requestName retryCount = (Inr v, [Invoke])"
  by (subst executeWithRetry.simps) simp

lemma executeWithRetry_give_up:
  "requestFn 0 = Inl error \<Longrightarrow> \<not> (retryable error \<and> retryCount < MAX_RETRIES) \<Longrightarrow>
   executeWithRetry requestFn requestName retryCount = (Inl error, [Invoke])"
  by (subst executeWithRetry.simps) (auto simp add: retryable_def)

lemma executeWithRetry_retry:
  "requestFn 0 = Inl error \<Longrightarrow> retryable error \<Longrightarrow> retryCount < MAX_RETRIES \<Longrightarrow>
   executeWithRetry requestFn requestName retryCount =
     (fst (executeWithRetry (\<lambda>n. requestFn (Suc n)) requestName (Suc retryCount)),
      Invoke # RetryLogged requestName error (Suc retryCount)
                 (RETRY_DELAY_MS * RETRY_MULTIPLIER ^ retryCount)
        # Wait (RETRY_DELAY_MS * RETRY_MULTIPLIER ^ retryCount)
        # snd (executeWithRetry (\<lambda>n. requestFn (Suc n)) requestName (Suc retryCount)))"
  by (subst executeWithRetry.simps) (simp add: retryable_def Let_def)

lemma executeWithRetry_starts_with_Invoke:
  "\<exists>es. snd (executeWithRetry requestFn requestName retryCount) = Invoke # es"
  by (subst executeWithRetry.simps) (simp add: Let_def split: sum.split)

lemma executeWithRetry_unroll:
  assumes "\<forall>i<m. \<exists>e. requestFn i = Inl e \<and> retryable e"
    and "retryCount + m \<le> MAX_RETRIES"
  shows "fst (executeWithRetry requestFn requestName retryCount) =
           fst (executeWithRetry (\<lambda>n. requestFn (n + m)) requestName (retryCount + m)) \<and>
         invocations (snd (executeWithRetry requestFn requestName retryCount)) =
           m + invocations (snd (executeWithRetry (\<lambda>n. requestFn (n + m)) requestName (retryCount + m)))"
  using assms
proof (induction m arbitrary: requestFn retryCount)
  case 0
  then show ?case by simp
next
  case (Suc m)
  from Suc.prems(1) obtain e where e: "requestFn 0 = Inl e" "retryable e"
    by blast
  from Suc.prems(2) have lt: "retryCount < MAX_RETRIES"
    by simp
  have tl: "\<forall>i<m. \<exists>e. requestFn (Suc i) = Inl e \<and> retryable e"
    using Suc.prems(1) by simp
  have bound: "Suc retryCount + m \<le> MAX_RETRIES"
    using Suc.prems(2) by simp
  note ih = Suc.IH [of "\<lambda>n. requestFn (Suc n)" "Suc retryCount", OF tl bound]
  note step = executeWithRetry_retry [of requestFn e retryCount requestName, OF e lt]
  show ?case
    using ih by (simp add: step)
qed

lemma unauthorized_terminal: "\<not> isNetworkError unauthorized \<and> \<not> isServerError unauthorized"
  by (simp add: isNetworkError_def isServerError_def unauthorized_def)

lemma sixth_attempt_succeeds_fails:
  "\<forall>i<5. \<exists>e. sixth_attempt_succeeds i = Inl e \<and> retryable e"
  by (simp add: sixth_attempt_succeeds_def retryable_def refused_net)

lemma always_refused_fails:
  "\<forall>i<m. \<exists>e. always_refused i = Inl e \<and> retryable e"
  by (simp add: always_refused_def retryable_def refused_net)

text \<open>
  Claim C3, as the code has it: \<open>MAX_RETRIES = 5\<close> bounds the retries, not the attempts.
  If the first \<open>k\<close> invocations fail with retryable errors and, when \<open>k \<le> 5\<close>, invocation
  \<open>k + 1\<close> returns (so \<open>k + 1\<close> is the number of attempts until success), then the operation is
  invoked exactly \<open>min 6 (k + 1)\<close> times, and the caller gets the outcome of the last
  invocation made: the value returned or, after six failures, the sixth error.
\<close>

theorem executeWithRetry_attempts:
  assumes "\<forall>i<k. \<exists>e. requestFn i = Inl e \<and> retryable e"
    and "k \<le> MAX_RETRIES \<longrightarrow> (\<exists>v. requestFn k = Inr v)"
  shows "invocations (snd (executeWithRetry requestFn requestName 0)) = min (MAX_RETRIES + 1) (k + 1) \<and>
         fst (executeWithRetry requestFn requestName 0) = requestFn (min MAX_RETRIES k)"
proof (cases "k \<le> MAX_RETRIES")
  case True
  with assms(2) obtain v where v: "requestFn k = Inr v"
    by blast
  have "0 + k \<le> MAX_RETRIES"
    using True by simp
  from executeWithRetry_unroll [OF assms(1) this, of requestName]
  show ?thesis
    using True v by (auto simp add: executeWithRetry_success min_def)
next
  case False
  then have gt: "MAX_RETRIES < k"
    by simp
  then have pre: "\<forall>i<MAX_RETRIES. \<exists>e. requestFn i = Inl e \<and> retryable e"
    using assms(1) by simp
  from gt assms(1) obtain e where e: "requestFn MAX_RETRIES = Inl e"
    by blast
  have "0 + MAX_RETRIES \<le> MAX_RETRIES"
    by simp
  from executeWithRetry_unroll [OF pre this, of requestName]
  show ?thesis
    using gt e by (auto simp add: executeWithRetry_give_up min_def)
qed

theorem executeWithRetry_attempts_witness:
  "sixth_attempt_succeeds 4 = Inl refused \<and> retryable refused \<and>
   sixth_attempt_succeeds 5 = Inr 7 \<and>
   invocations (snd (executeWithRetry sixth_attempt_succeeds ''Token validation'' 0)) = 6 \<and>
   fst (executeWithRetry sixth_attempt_succeeds ''Token validation'' 0) = Inr 7 \<and>
   invocations (snd (executeWithRetry always_refused ''Token validation'' 0)) = 6 \<and>
   fst (executeWithRetry always_refused ''Token validation'' 0) = Inl refused"
proof -
  have ok: "5 \<le> MAX_RETRIES \<longrightarrow> (\<exists>v. sixth_attempt_succeeds 5 = Inr v)"
    by (simp add: sixth_attempt_succeeds_def)
  have never: "6 \<le> MAX_RETRIES \<longrightarrow> (\<exists>v. always_refused 6 = Inr v)"
    by (simp add: MAX_RETRIES_def)
  have vals: "sixth_attempt_succeeds 4 = Inl refused" "sixth_attempt_succeeds 5 = Inr 7"
    "always_refused 5 = Inl refused" "retryable refused"
    by (simp_all add: sixth_attempt_succeeds_def always_refused_def retryable_def refused_net)
  show ?thesis
    using executeWithRetry_attempts [OF sixth_attempt_succeeds_fails ok, of "''Token validation''"]
      executeWithRetry_attempts [OF always_refused_fails never, of "''Token validation''"]
    by (simp add: MAX_RETRIES_def vals)
qed

text \<open>The claim as the spec words it, at most five invocations, fails: an operation refused
  five times is invoked a sixth time, and so is one that is refused every time.\<close>

theorem executeWithRetry_five_attempts_counterexample:
  "\<not> (invocations (snd (executeWithRetry sixth_attempt_succeeds ''Token validation'' 0)) = min 5 6) \<and>
   \<not> (invocations (snd (executeWithRetry always_refused ''Token validation'' 0)) = 5)"
  by (simp add: executeWithRetry.simps Let_def sixth_attempt_succeeds_def always_refused_def
      refused_net MAX_RETRIES_def)

text \<open>
  Claim C4: when the operation fails with an error that is neither network-class nor a
  server error, it has been invoked exactly once, nothing is logged or awaited, and the
  same error is thrown to the caller, whatever the retry count.
\<close>

theorem executeWithRetry_terminal:
  assumes "requestFn 0 = Inl error"
    and "\<not> isNetworkError error" and "\<not> isServerError error"
  shows "executeWithRetry requestFn requestName retryCount = (Inl error, [Invoke])"
  using assms by (simp add: executeWithRetry_give_up retryable_def)

theorem executeWithRetry_terminal_witness:
  "\<not> isNetworkError unauthorized \<and> \<not> isServerError unauthorized \<and>
   executeWithRetry (\<lambda>n. Inl unauthorized :: js_error + nat) ''GET /me'' 0 =
     (Inl unauthorized, [Invoke])"
  using executeWithRetry_terminal [of "\<lambda>n. Inl unauthorized :: js_error + nat" unauthorized "''GET /me''" 0]
    unauthorized_terminal
  by simp

lemma waited_before_retries:
  assumes "\<forall>i<m. \<exists>e. requestFn i = Inl e \<and> retryable e"
    and "retryCount + m \<le> MAX_RETRIES"
    and "2 \<le> k" and "k \<le> m + 1"
  shows "waited_before k (snd (executeWithRetry requestFn requestName retryCount)) =
           [RETRY_DELAY_MS * RETRY_MULTIPLIER ^ (retryCount + k - 2)]"
  using assms
proof (induction m arbitrary: requestFn retryCount k)
  case 0
  then show ?case by simp
next
  case (Suc m)
  from Suc.prems(1) obtain e where e: "requestFn 0 = Inl e" "retryable e"
    by blast
  from Suc.prems(2) have lt: "retryCount < MAX_RETRIES"
    by simp
  have tl: "\<forall>i<m. \<exists>e. requestFn (Suc i) = Inl e \<and> retryable e"
    using Suc.prems(1) by simp
  have bound: "Suc retryCount + m \<le> MAX_RETRIES"
    using Suc.prems(2) by simp
  obtain es where es: "snd (executeWithRetry (\<lambda>n. requestFn (Suc n)) requestName (Suc retryCount)) = Invoke # es"
    using executeWithRetry_starts_with_Invoke by blast
  note step = executeWithRetry_retry [of requestFn e retryCount requestName, OF e lt]
  show ?case
  proof (cases "k = 2")
    case True
    then show ?thesis
      by (simp add: step es)
  next
    case False
    with Suc.prems(3,4) have k: "2 \<le> k - 1" "k - 1 \<le> m + 1"
      by simp_all
    have "waited_before (k - 1) (snd (executeWithRetry (\<lambda>n. requestFn (Suc n)) requestName (Suc retryCount))) =
            [RETRY_DELAY_MS * RETRY_MULTIPLIER ^ (Suc retryCount + (k - 1) - 2)]"
      by (rule Suc.IH [OF tl bound k])
    moreover have "Suc retryCount + (k - 1) - 2 = retryCount + k - 2"
      using Suc.prems(3) by simp
    ultimately show ?thesis
      using k by (simp add: step)
  qed
qed

text \<open>
  Claim C5, as the code has it: nothing is awaited before attempt 1, and before attempt
  \<open>k \<ge> 2\<close> exactly one timer of \<open>2000 * 1.5 ^ (k - 2)\<close> milliseconds is awaited (2000 before
  the second attempt), for every attempt that follows a retryable failure.
\<close>

theorem executeWithRetry_delays:
  assumes "\<forall>i<m. \<exists>e. requestFn i = Inl e \<and> retryable e"
    and "m \<le> MAX_RETRIES"
    and "2 \<le> k" and "k \<le> m + 1"
  shows "waited_before 1 (snd (executeWithRetry requestFn requestName 0)) = [] \<and>
         waited_before k (snd (executeWithRetry requestFn requestName 0)) =
           [2000 * (3 / 2) ^ (k - 2)]"
proof -
  obtain es where "snd (executeWithRetry requestFn requestName 0) = Invoke # es"
    using executeWithRetry_starts_with_Invoke by blast
  then have "waited_before 1 (snd (executeWithRetry requestFn requestName 0)) = []"
    by simp
  moreover have "waited_before k (snd (executeWithRetry requestFn requestName 0)) =
              [2000 * (3 / 2) ^ (k - 2)]"
    using waited_before_retries [of m requestFn 0 k requestName] assms
    by (simp add: RETRY_DELAY_MS_def RETRY_MULTIPLIER_def)
  ultimately show ?thesis by blast
qed

theorem executeWithRetry_delays_witness:
  "sixth_attempt_succeeds 4 = Inl refused \<and> retryable refused \<and> (5::nat) \<le> MAX_RETRIES \<and>
   waited_before 1 (snd (executeWithRetry sixth_attempt_succeeds ''Token validation'' 0)) = [] \<and>
   waited_before 2 (snd (executeWithRetry sixth_attempt_succeeds ''Token validation'' 0)) = [2000] \<and>
   waited_before 6 (snd (executeWithRetry sixth_attempt_succeeds ''Token validation'' 0)) = [10125]"
proof -
  have m: "5 \<le> MAX_RETRIES"
    by (simp add: MAX_RETRIES_def)
  have vals: "sixth_attempt_succeeds 4 = Inl refused" "retryable refused"
    by (simp_all add: sixth_attempt_succeeds_def retryable_def refused_net)
  show ?thesis
    using executeWithRetry_delays [OF sixth_attempt_succeeds_fails m, of 2 "''Token validation''"]
      executeWithRetry_delays [OF sixth_attempt_succeeds_fails m, of 6 "''Token validation''"]
    by (simp add: MAX_RETRIES_def vals power_divide)
qed

text \<open>The claim as the spec words it, \<open>2000 * 1.5 ^ (k - 1)\<close> before attempt \<open>k\<close>, fails at
  \<open>k = 2\<close>: the second attempt follows a wait of 2000 milliseconds, not 3000.\<close>

theorem executeWithRetry_delay_exponent_counterexample:
  "\<not> (waited_before 2 (snd (executeWithRetry always_refused ''Token validation'' 0)) =
        [2000 * (3 / 2) ^ (2 - 1)])"
  by (simp add: executeWithRetry.simps Let_def always_refused_def
      refused_net MAX_RETRIES_def RETRY_DELAY_MS_def RETRY_MULTIPLIER_def)

section \<open>Properties of the automation engine\<close>

subsection \<open>What each step writes, schedules and sends\<close>

lemma counter_writes_append [simp]: "counter_writes (xs @ ys) = counter_writes xs @ counter_writes ys"
  by (induction xs rule: counter_writes.induct) simp_all

lemma timeouts_append [simp]: "timeouts (xs @ ys) = timeouts xs @ timeouts ys"
  by (induction xs rule: timeouts.induct) simp_all

lemma sleeps_append [simp]: "sleeps (xs @ ys) = sleeps xs @ sleeps ys"
  by (induction xs rule: sleeps.induct) simp_all

lemma sent_messages_append [simp]:
  "sent_messages (xs @ ys) = sent_messages xs @ sent_messages ys"
  by (induction xs rule: sent_messages.induct) simp_all

lemma refresh_step_quiet [simp]:
  "counter_writes (refresh_step env) = []" "timeouts (refresh_step env) = []"
  "sleeps (refresh_step env) = []" "sent_messages (refresh_step env) = []"
  by (simp_all add: refresh_step_def split: option.split)

lemma loop_catch_state:
  "fst (loop_catch e s) =
     s\<lparr>consecutiveErrors :=
         (if retryable e \<and> consecutiveErrors s + 1 \<ge> MAX_CONSECUTIVE_ERRORS then 0
          else consecutiveErrors s + 1)\<rparr>"
  by (simp add: loop_catch_def retryable_def Let_def)

lemma loop_catch_timeouts:
  "timeouts (snd (loop_catch e s)) =
     [(RetryIfRunning,
       if retryable e then
         (if consecutiveErrors s + 1 \<ge> MAX_CONSECUTIVE_ERRORS then 180000
          else if consecutiveErrors s + 1 > 1 then 15000 else 5000)
       else 15000)]"
  by (simp add: loop_catch_def retryable_def Let_def)

lemma loop_catch_writes:
  "counter_writes (snd (loop_catch e s)) =
     (if retryable e \<and> consecutiveErrors s + 1 \<ge> MAX_CONSECUTIVE_ERRORS
      then [consecutiveErrors s + 1, 0] else [consecutiveErrors s + 1])"
  by (simp add: loop_catch_def retryable_def Let_def)

lemma loop_catch_quiet [simp]:
  "sleeps (snd (loop_catch e s)) = []" "sent_messages (snd (loop_catch e s)) = []"
  by (simp_all add: loop_catch_def Let_def)

lemma send_step_state:
  "fst (send_step env m s) =
     s\<lparr>consecutiveErrors :=
         (case sendChatMessage env of None \<Rightarrow> 0
          | Some e \<Rightarrow> if consecutiveErrors s + 1 \<ge> MAX_CONSECUTIVE_ERRORS then 0
                       else consecutiveErrors s + 1)\<rparr>"
  by (simp add: send_step_def Let_def split: option.split)

lemma send_step_sleeps:
  "sleeps (snd (send_step env m s)) =
     (case sendChatMessage env of None \<Rightarrow> []
      | Some e \<Rightarrow> if consecutiveErrors s + 1 \<ge> MAX_CONSECUTIVE_ERRORS then [180000]
                   else [10000])"
  by (simp add: send_step_def Let_def split: option.split)


lemma send_step_quiet [simp]:
  "timeouts (snd (send_step env m s)) = []" "sent_messages (snd (send_step env m s)) = [m]"
  by (simp_all add: send_step_def Let_def split: option.split)

lemma work_step_state:
  "fst (work_step env s) =
     (case generateUserMessage env of Inl e \<Rightarrow> s
      | Inr m \<Rightarrow>
          s\<lparr>consecutiveErrors := (case sendChatMessage env of None \<Rightarrow> 0 | Some e \<Rightarrow> 1)\<rparr>)"
  by (simp add: work_step_def Let_def send_step_state MAX_CONSECUTIVE_ERRORS_def
      split: sum.split option.split)

lemma work_step_sleeps:
  "sleeps (fst (snd (work_step env s))) =
     (case generateUserMessage env of Inl e \<Rightarrow> []
      | Inr m \<Rightarrow> (case sendChatMessage env of None \<Rightarrow> [] | Some e \<Rightarrow> [10000]))"
  by (simp add: work_step_def Let_def send_step_sleeps MAX_CONSECUTIVE_ERRORS_def
      split: sum.split option.split)


lemma work_step_timeouts:
  "timeouts (fst (snd (work_step env s))) =
     (case generateUserMessage env of Inl e \<Rightarrow> []
      | Inr m \<Rightarrow> [(LoopAgain, random_floor env + 3000)])"
  by (simp add: work_step_def Let_def split: sum.split)


lemma quota_step_state:
  "consecutiveErrors (fst (quota_step env s)) =
     (case checkRateLimitAvailability env of
        Inr True \<Rightarrow> consecutiveErrors (fst (work_step env s))
      | _ \<Rightarrow> consecutiveErrors s)"
  "isRunning (fst (quota_step env s)) = isRunning s"
  by (simp_all add: quota_step_def Let_def work_step_state split: sum.split bool.split)

lemma quota_step_sleeps:
  "sleeps (fst (snd (quota_step env s))) =
     (case checkRateLimitAvailability env of
        Inr True \<Rightarrow> sleeps (fst (snd (work_step env s)))
      | _ \<Rightarrow> [])"
  by (simp add: quota_step_def Let_def split: sum.split bool.split)


lemma quota_step_timeouts:
  "timeouts (fst (snd (quota_step env s))) =
     (case checkRateLimitAvailability env of
        Inr True \<Rightarrow> timeouts (fst (snd (work_step env s)))
      | _ \<Rightarrow> [])"
  by (simp add: quota_step_def Let_def split: sum.split bool.split)


lemma loop_try_isRunning: "isRunning (fst (loop_try env s)) = isRunning s"
  by (simp add: loop_try_def Let_def quota_step_state split: option.split)



lemma loop_try_sleeps:
  "sleeps (fst (snd (loop_try env s))) =
     (if isRunning s \<and> checkLogSize env = None \<and> \<not> isCooldownActive env
      then sleeps (fst (snd (quota_step env s))) else [])"
  by (auto simp add: loop_try_def Let_def split: option.split)


lemma automationLoop_unfold:
  "automationLoop env s =
     (case snd (snd (loop_try env s)) of
        None \<Rightarrow> (fst (loop_try env s), fst (snd (loop_try env s)))
      | Some e \<Rightarrow>
          (fst (loop_catch e (fst (loop_try env s))),
           fst (snd (loop_try env s)) @ snd (loop_catch e (fst (loop_try env s)))))"
  by (simp add: automationLoop_def Let_def split: prod.split option.split)

lemma automationLoop_isRunning: "isRunning (fst (automationLoop env s)) = isRunning s"
  by (simp add: automationLoop_unfold loop_catch_state loop_try_isRunning split: option.split)

lemma automationLoop_sleeps:
  "sleeps (snd (automationLoop env s)) = [] \<or> sleeps (snd (automationLoop env s)) = [10000]"
  by (simp add: automationLoop_unfold loop_try_sleeps quota_step_sleeps work_step_sleeps
      split: option.split sum.split bool.split)






lemma loop_try_sent:
  "sent_messages (fst (snd (loop_try env s))) =
     (if isRunning s \<and> checkLogSize env = None \<and> \<not> isCooldownActive env
      then sent_messages (fst (snd (quota_step env s))) else [])"
  by (auto simp add: loop_try_def Let_def split: option.split)

lemma automationLoop_sent:
  "sent_messages (snd (automationLoop env s)) = sent_messages (fst (snd (loop_try env s)))"
  by (simp add: automationLoop_unfold split: option.split)


lemma run_steps_writes:
  "list_all (\<lambda>p. counter_writes (fst p) = []) xs \<Longrightarrow> counter_writes (fst (run_steps xs)) = []"
  by (induction xs rule: run_steps.induct) simp_all

lemma start_steps_writes [simp]: "counter_writes (fst (start_steps env)) = []"
  by (simp add: start_steps_def run_steps_writes)







lemma chat_failure_cycle:
  assumes "isRunning s" "checkLogSize env = None" "\<not> isCooldownActive env"
    "checkRateLimitAvailability env = Inr True" "generateUserMessage env = Inr m"
    "sendChatMessage env = Some e"
  shows "fst (automationLoop env s) = s\<lparr>consecutiveErrors := 1\<rparr> \<and>
         sleeps (snd (automationLoop env s)) = [10000] \<and>
         sent_messages (snd (automationLoop env s)) = [m]"
  using assms
  by (simp add: automationLoop_def loop_try_def quota_step_def work_step_def Let_def
      send_step_state send_step_sleeps MAX_CONSECUTIVE_ERRORS_def)

lemma chat_failure_step:
  "isRunning s \<Longrightarrow>
   fst (step chat_failure s) = s\<lparr>consecutiveErrors := 1\<rparr> \<and>
   sleeps (snd (step chat_failure s)) = [10000] \<and>
   sent_messages (snd (step chat_failure s)) = [''hello'']"
  using chat_failure_cycle [of s chat_fails "''hello''" unavailable]
  by (simp add: chat_failure_def chat_fails_def quiet_cycle_def)

text \<open>
  Claim C1 on the code: three cycles in a row whose chat send fails (503 from the
  transport). Each cycle resets the counter on line 200 before the send, counts the
  failure to 1 and sleeps 10 seconds; no cycle sleeps 180 seconds and the counter is 1
  after the third failure.
\<close>

theorem three_chat_failures_short_pauses:
  "consecutiveErrors (fst (exec [chat_failure, chat_failure, chat_failure] running_state)) = 1 \<and>
   sleeps (snd (exec [chat_failure, chat_failure, chat_failure] running_state)) =
     [10000, 10000, 10000] \<and>
   sent_messages (snd (exec [chat_failure, chat_failure, chat_failure] running_state)) =
     [''hello'', ''hello'', ''hello'']"
proof -
  have s0: "isRunning running_state"
    by (simp add: running_state_def)
  have s1: "isRunning (running_state\<lparr>consecutiveErrors := 1\<rparr>)"
    by (simp add: running_state_def)
  show ?thesis
    using chat_failure_step [OF s0] chat_failure_step [OF s1]
    by (simp del: step.simps)
qed





lemma refused_retryable: "retryable refused"
  by (simp add: retryable_def refused_net)

lemma unauthorized_not_retryable: "\<not> retryable unauthorized"
  by (simp add: retryable_def unauthorized_terminal)



text \<open>
  Claim C6, as the code has it: every exception caught by the loop's \<open>catch\<close> increments the
  counter. If it is of the network class or a server error, the retry is scheduled by the
  ladder (5 seconds at count 1, 15 seconds at count 2, 180 seconds and a reset at 3 or
  more); any other exception is rescheduled after a flat 15 seconds and the counter is not
  reset. Two loop-level errors in a row with an \<open>ECONNREFUSED\<close> message, from a counter of 0,
  give 5 seconds and then 15 seconds. Every exception leaving the \<open>try\<close> is handled so.
\<close>

theorem loop_catch_backoff:
  "take 1 (counter_writes (snd (loop_catch e s))) = [consecutiveErrors s + 1] \<and>
   (retryable e \<longrightarrow>
      timeouts (snd (loop_catch e s)) = [(RetryIfRunning, backoff_ladder (consecutiveErrors s + 1))] \<and>
      consecutiveErrors (fst (loop_catch e s)) =
        (if consecutiveErrors s + 1 \<ge> MAX_CONSECUTIVE_ERRORS then 0 else consecutiveErrors s + 1)) \<and>
   (\<not> retryable e \<longrightarrow>
      timeouts (snd (loop_catch e s)) = [(RetryIfRunning, 15000)] \<and>
      consecutiveErrors (fst (loop_catch e s)) = consecutiveErrors s + 1) \<and>
   (str_includes (message e) ''ECONNREFUSED'' \<and> str_includes (message e2) ''ECONNREFUSED'' \<and>
    consecutiveErrors s = 0 \<longrightarrow>
      timeouts (snd (loop_catch e s)) = [(RetryIfRunning, 5000)] \<and>
      timeouts (snd (loop_catch e2 (fst (loop_catch e s)))) = [(RetryIfRunning, 15000)]) \<and>
   (snd (snd (loop_try env s)) = Some e \<longrightarrow>
      automationLoop env s =
        (fst (loop_catch e (fst (loop_try env s))),
         fst (snd (loop_try env s)) @ snd (loop_catch e (fst (loop_try env s)))))"
proof -
  have "take 1 (counter_writes (snd (loop_catch e s))) = [consecutiveErrors s + 1]"
    by (simp add: loop_catch_writes)
  moreover have "retryable e \<longrightarrow>
      timeouts (snd (loop_catch e s)) = [(RetryIfRunning, backoff_ladder (consecutiveErrors s + 1))] \<and>
      consecutiveErrors (fst (loop_catch e s)) =
        (if consecutiveErrors s + 1 \<ge> MAX_CONSECUTIVE_ERRORS then 0 else consecutiveErrors s + 1)"
    by (simp add: loop_catch_timeouts loop_catch_state backoff_ladder_def MAX_CONSECUTIVE_ERRORS_def)
  moreover have "\<not> retryable e \<longrightarrow>
      timeouts (snd (loop_catch e s)) = [(RetryIfRunning, 15000)] \<and>
      consecutiveErrors (fst (loop_catch e s)) = consecutiveErrors s + 1"
    by (simp add: loop_catch_timeouts loop_catch_state)
  moreover have "str_includes (message e) ''ECONNREFUSED'' \<and>
      str_includes (message e2) ''ECONNREFUSED'' \<and> consecutiveErrors s = 0 \<longrightarrow>
      timeouts (snd (loop_catch e s)) = [(RetryIfRunning, 5000)] \<and>
      timeouts (snd (loop_catch e2 (fst (loop_catch e s)))) = [(RetryIfRunning, 15000)]"
    by (simp add: loop_catch_timeouts loop_catch_state retryable_def isNetworkError_def
        MAX_CONSECUTIVE_ERRORS_def)
  moreover have "snd (snd (loop_try env s)) = Some e \<longrightarrow>
      automationLoop env s =
        (fst (loop_catch e (fst (loop_try env s))),
         fst (snd (loop_try env s)) @ snd (loop_catch e (fst (loop_try env s))))"
    by (simp add: automationLoop_unfold)
  ultimately show ?thesis by blast
qed

lemma quota_refused_try:
  "loop_try quota_refused running_state =
     (running_state, [Call ''checkLogSize'', Call ''rateLimit.checkRateLimitAvailability''],
      Some refused)"
  by (simp add: loop_try_def quota_step_def quota_refused_def quiet_cycle_def running_state_def)

theorem loop_catch_backoff_witness:
  "retryable refused \<and> str_includes (message refused) ''ECONNREFUSED'' \<and>
   consecutiveErrors running_state = 0 \<and>
   timeouts (snd (loop_catch refused running_state)) = [(RetryIfRunning, 5000)] \<and>
   timeouts (snd (loop_catch refused (fst (loop_catch refused running_state)))) =
     [(RetryIfRunning, 15000)] \<and>
   consecutiveErrors (fst (loop_catch refused running_state)) = 1 \<and>
   snd (snd (loop_try quota_refused running_state)) = Some refused \<and>
   timeouts (snd (automationLoop quota_refused running_state)) = [(RetryIfRunning, 5000)] \<and>
   \<not> retryable unauthorized \<and>
   timeouts (snd (loop_catch unauthorized running_state)) = [(RetryIfRunning, 15000)] \<and>
   consecutiveErrors (fst (loop_catch unauthorized running_state)) = 1"
proof -
  have econn: "str_includes (message refused) ''ECONNREFUSED''"
    by (simp add: refused_def)
  have zero: "consecutiveErrors running_state = 0"
    by (simp add: running_state_def)
  show ?thesis
    using loop_catch_backoff [of refused running_state refused quota_refused]
      loop_catch_backoff [of unauthorized running_state refused quota_refused]
      refused_retryable unauthorized_not_retryable econn zero quota_refused_try
    by (simp add: MAX_CONSECUTIVE_ERRORS_def backoff_ladder_def)
qed

text \<open>The ladder does not hold for every exception: a 401 is rescheduled after 15 seconds
  on the first offence, and at the threshold the counter is not reset.\<close>

theorem loop_catch_ladder_counterexample:
  "\<not> (timeouts (snd (loop_catch unauthorized running_state)) =
        [(RetryIfRunning, backoff_ladder (consecutiveErrors running_state + 1))]) \<and>
   \<not> (consecutiveErrors (fst (loop_catch unauthorized (running_state\<lparr>consecutiveErrors := 2\<rparr>))) = 0)"
  by (simp add: loop_catch_timeouts loop_catch_state unauthorized_not_retryable
      backoff_ladder_def running_state_def)

text \<open>
  Claim C7, as the code has it: while the automation is running, \<open>resumeAutomation\<close> only
  logs the warning that it is already running, whatever the cooldown. While it is not
  running, the call is rejected with no state change if and only if the cooldown is
  active; otherwise it sets the run state to running, resets the counter and enters the
  loop.
\<close>

theorem resumeAutomation_outcomes:
  "(isRunning s \<longrightarrow>
      resumeAutomation env s = (s, [Log [Str ''Automation already running''] Warning])) \<and>
   (\<not> isRunning s \<and> isCooldownActive env \<longrightarrow>
      resumeAutomation env s =
        (s, [Log [Str ''Cannot resume during cooldown''] Warning,
             LogToFile [Str ''Resume attempt failed - cooldown active'']])) \<and>
   (\<not> isRunning s \<and> \<not> isCooldownActive env \<longrightarrow>
      isRunning (fst (resumeAutomation env s)) \<and>
      resumeAutomation env s =
        (fst (automationLoop env (s\<lparr>isRunning := True, consecutiveErrors := 0\<rparr>)),
         [SetConsecutiveErrors 0,
          UpdateStatus [Str ''Running''] Success,
          Log [Str ''Automation resumed''] Success,
          LogToFile [Str ''Automation resumed''],
          Render] @
         snd (automationLoop env (s\<lparr>isRunning := True, consecutiveErrors := 0\<rparr>)))) \<and>
   (\<not> isRunning s \<longrightarrow> (fst (resumeAutomation env s) = s) = isCooldownActive env)"
proof -
  have "isRunning (fst (resumeAutomation env s))" if "\<not> isRunning s" "\<not> isCooldownActive env"
    using that by (simp add: resumeAutomation_def Let_def automationLoop_isRunning)
  moreover from this have "fst (resumeAutomation env s) \<noteq> s"
    if "\<not> isRunning s" "\<not> isCooldownActive env"
    using that by metis
  moreover have "fst (resumeAutomation env s) = s" if "isCooldownActive env"
    using that by (simp add: resumeAutomation_def)
  ultimately show ?thesis
    by (auto simp add: resumeAutomation_def Let_def)
qed

theorem resumeAutomation_outcomes_witness:
  "\<not> isRunning initial_state \<and> isCooldownActive cooling \<and> \<not> isCooldownActive quiet_cycle \<and>
   isRunning running_state \<and>
   resumeAutomation quiet_cycle running_state =
     (running_state, [Log [Str ''Automation already running''] Warning]) \<and>
   resumeAutomation cooling initial_state =
     (initial_state, [Log [Str ''Cannot resume during cooldown''] Warning,
                      LogToFile [Str ''Resume attempt failed - cooldown active'']]) \<and>
   isRunning (fst (resumeAutomation quiet_cycle initial_state)) \<and>
   fst (resumeAutomation quiet_cycle initial_state) \<noteq> initial_state"
proof -
  have facts: "\<not> isRunning initial_state" "isCooldownActive cooling"
    "\<not> isCooldownActive quiet_cycle" "isRunning running_state"
    by (simp_all add: initial_state_def cooling_def quiet_cycle_def running_state_def)
  show ?thesis
    using resumeAutomation_outcomes [of running_state quiet_cycle]
      resumeAutomation_outcomes [of initial_state cooling]
      resumeAutomation_outcomes [of initial_state quiet_cycle] facts
    by blast
qed

text \<open>The equivalence does not hold regardless of the run state: while running and with no
  cooldown the call changes nothing and enters no loop, and the cooldown flag makes no
  difference to what it does.\<close>

theorem resume_while_running_counterexample:
  "\<not> ((fst (resumeAutomation quiet_cycle running_state) = running_state \<and>
        sent_messages (snd (resumeAutomation quiet_cycle running_state)) = []) =
       isCooldownActive quiet_cycle) \<and>
   resumeAutomation cooling running_state = resumeAutomation quiet_cycle running_state"
  by (simp add: resumeAutomation_def running_state_def quiet_cycle_def)

text \<open>
  Claim C8: a cycle that finds the cooldown active hands no message to the chat transport,
  whatever else happens in it; when it runs (the automation is running and the log
  housekeeping returns) it does nothing but schedule \<open>automationLoop\<close> again after 1000
  milliseconds, and leaves the state as it was.
\<close>

theorem cooldown_cycle_only_reschedules:
  assumes "isCooldownActive env"
  shows "sent_messages (snd (automationLoop env s)) = [] \<and>
         (isRunning s \<and> checkLogSize env = None \<longrightarrow>
            automationLoop env s = (s, [Call ''checkLogSize'', SetTimeout LoopAgain 1000]))"
proof -
  have "sent_messages (snd (automationLoop env s)) = []"
    using assms by (simp add: automationLoop_sent loop_try_sent)
  moreover have "automationLoop env s = (s, [Call ''checkLogSize'', SetTimeout LoopAgain 1000])"
    if "isRunning s" "checkLogSize env = None"
    using that assms by (simp add: automationLoop_def loop_try_def)
  ultimately show ?thesis by blast
qed

theorem cooldown_cycle_only_reschedules_witness:
  "isCooldownActive cooling \<and> isRunning running_state \<and> checkLogSize cooling = None \<and>
   sent_messages (snd (automationLoop cooling running_state)) = [] \<and>
   automationLoop cooling running_state =
     (running_state, [Call ''checkLogSize'', SetTimeout LoopAgain 1000])"
proof -
  have facts: "isCooldownActive cooling" "isRunning running_state" "checkLogSize cooling = None"
    by (simp_all add: cooling_def quiet_cycle_def running_state_def)
  show ?thesis
    using cooldown_cycle_only_reschedules [OF facts(1), of running_state] facts
    by blast
qed

text \<open>
  Claim C9: \<open>startAutomation\<close> on a running automation changes nothing and only logs the
  warning that it is already running; this is the state a first call is in from its first
  statement on. After a first call whose start-up steps all succeed the run state is
  running, and a second call leaves it so, enters no loop and logs that warning only.
\<close>

theorem startAutomation_twice:
  "(isRunning s \<longrightarrow>
      startAutomation env2 s = (s, [Log [Str ''Automation already running''] Warning])) \<and>
   (snd (start_steps env1) = None \<longrightarrow>
      isRunning (fst (startAutomation env1 s)) \<and>
      startAutomation env2 (fst (startAutomation env1 s)) =
        (fst (startAutomation env1 s), [Log [Str ''Automation already running''] Warning]))"
proof -
  have noop: "startAutomation env2 t = (t, [Log [Str ''Automation already running''] Warning])"
    if "isRunning t" for t
    using that by (simp add: startAutomation_def)
  have "isRunning (fst (startAutomation env1 s))" if "snd (start_steps env1) = None"
    using that by (simp add: startAutomation_def Let_def automationLoop_isRunning)
  with noop show ?thesis by blast
qed

lemma quiet_start_steps: "snd (start_steps quiet_start) = None"
  by (simp add: start_steps_def quiet_start_def)

theorem startAutomation_twice_witness:
  "isRunning running_state \<and> snd (start_steps quiet_start) = None \<and>
   startAutomation quiet_start running_state =
     (running_state, [Log [Str ''Automation already running''] Warning]) \<and>
   isRunning (fst (startAutomation quiet_start initial_state)) \<and>
   startAutomation quiet_start (fst (startAutomation quiet_start initial_state)) =
     (fst (startAutomation quiet_start initial_state),
      [Log [Str ''Automation already running''] Warning])"
proof -
  have run: "isRunning running_state"
    by (simp add: running_state_def)
  show ?thesis
    using startAutomation_twice [of running_state quiet_start quiet_start]
      startAutomation_twice [of initial_state quiet_start quiet_start]
      run quiet_start_steps
    by blast
qed

text \<open>
  Claim C10: a start from the stopped state and a resume outside a cooldown behave the same
  whatever the counter was before, as if it had been 0: the first write resets it to 0 and
  the loop is entered on a state whose counter is 0.
\<close>

theorem start_and_resume_reset_counter:
  "(\<not> isRunning s \<longrightarrow>
      startAutomation env (s\<lparr>consecutiveErrors := n\<rparr>) =
        startAutomation env (s\<lparr>consecutiveErrors := 0\<rparr>)) \<and>
   (\<not> isRunning s \<and> snd (start_steps env) = None \<longrightarrow>
      fst (startAutomation env s) =
        fst (automationLoop (first_cycle env) (s\<lparr>isRunning := True, consecutiveErrors := 0\<rparr>)) \<and>
      take 1 (counter_writes (snd (startAutomation env s))) = [0]) \<and>
   (\<not> isRunning s \<and> \<not> isCooldownActive cycle \<longrightarrow>
      resumeAutomation cycle (s\<lparr>consecutiveErrors := n\<rparr>) =
        resumeAutomation cycle (s\<lparr>consecutiveErrors := 0\<rparr>) \<and>
      fst (resumeAutomation cycle s) =
        fst (automationLoop cycle (s\<lparr>isRunning := True, consecutiveErrors := 0\<rparr>)) \<and>
      take 1 (counter_writes (snd (resumeAutomation cycle s))) = [0])"
  by (simp add: startAutomation_def resumeAutomation_def Let_def)

theorem start_and_resume_reset_counter_witness:
  "\<not> isRunning initial_state \<and> snd (start_steps quiet_start) = None \<and>
   \<not> isCooldownActive quiet_cycle \<and>
   startAutomation quiet_start (initial_state\<lparr>consecutiveErrors := 2\<rparr>) =
     startAutomation quiet_start (initial_state\<lparr>consecutiveErrors := 0\<rparr>) \<and>
   take 1 (counter_writes (snd (startAutomation quiet_start initial_state))) = [0] \<and>
   resumeAutomation quiet_cycle (initial_state\<lparr>consecutiveErrors := 2\<rparr>) =
     resumeAutomation quiet_cycle (initial_state\<lparr>consecutiveErrors := 0\<rparr>) \<and>
   take 1 (counter_writes (snd (resumeAutomation quiet_cycle initial_state))) = [0]"
proof -
  have facts: "\<not> isRunning initial_state" "\<not> isCooldownActive quiet_cycle"
    by (simp_all add: initial_state_def quiet_cycle_def)
  show ?thesis
    using start_and_resume_reset_counter [of initial_state quiet_start 2 quiet_cycle]
      facts quiet_start_steps
    by blast
qed

end
